theory Spec2Isabelle
  imports Complex_Main
begin

section \<open>Python values and the logging module\<close>

text \<open>
  Both scripts configure \<^verbatim>\<open>logging\<close> at level INFO, so every \<^verbatim>\<open>info\<close>,
  \<^verbatim>\<open>warning\<close> and \<^verbatim>\<open>error\<close> call emits one record. A record is modelled by its
  level and its message; an f-string is kept as the list of its literal pieces and of
  the values interpolated into it, so that no number formatting has to be modelled.

  The values of a registration dictionary are Python objects. The model has the kinds
  the scripts use (\<^verbatim>\<open>int\<close>, \<^verbatim>\<open>bool\<close>, \<^verbatim>\<open>str\<close>) and \<^verbatim>\<open>None\<close>.
\<close>

datatype pyval = PInt int | PBool bool | PStr string | PNone

datatype level = INFO | WARNING | ERROR

datatype frag = Lit string | Fmt_str string | Fmt_num real | Fmt_int int | Fmt_val pyval

datatype log_record = Log_record level "frag list"

datatype error = TypeError

text \<open>Truth value testing, as \<^verbatim>\<open>if x:\<close> and \<^verbatim>\<open>not x\<close> perform it.\<close>

fun truthy :: "pyval \<Rightarrow> bool" where
  "truthy (PInt n) = (n \<noteq> 0)"
| "truthy (PBool b) = b"
| "truthy (PStr s) = (s \<noteq> [])"
| "truthy PNone = False"

text \<open>
  \<^verbatim>\<open>x > m\<close> for an \<^verbatim>\<open>int\<close> \<^verbatim>\<open>m\<close>: \<^verbatim>\<open>bool\<close> is a subclass of \<^verbatim>\<open>int\<close>
  (\<^verbatim>\<open>True\<close> is 1), a \<^verbatim>\<open>str\<close> or \<^verbatim>\<open>None\<close> on the left raises \<^verbatim>\<open>TypeError\<close>.
\<close>

fun num_of :: "pyval \<Rightarrow> int option" where
  "num_of (PInt n) = Some n"
| "num_of (PBool b) = Some (if b then 1 else 0)"
| "num_of (PStr s) = None"
| "num_of PNone = None"

definition py_gt :: "pyval \<Rightarrow> int \<Rightarrow> error + bool" where
  "py_gt x m = (case num_of x of None \<Rightarrow> Inl TypeError | Some n \<Rightarrow> Inr (n > m))"

text \<open>\<^verbatim>\<open>d.get(key, default)\<close>.\<close>

definition dict_get :: "(string \<rightharpoonup> pyval) \<Rightarrow> string \<Rightarrow> pyval \<Rightarrow> pyval" where
  "dict_get d key dflt = (case d key of None \<Rightarrow> dflt | Some v \<Rightarrow> v)"


section \<open>The checkout script (kode11.py)\<close>

subsection \<open>The order\<close>

record Order =
  customer_name :: string
  total_price :: real
  status :: string

text \<open>
  The dataclass constructor: \<^verbatim>\<open>status\<close> has the default \<^verbatim>\<open>"open"\<close>. The price is
  never computed with, only stored and formatted, so it is a number.
\<close>

definition Order_init :: "string \<Rightarrow> real \<Rightarrow> string option \<Rightarrow> Order" where
  "Order_init name price st =
     \<lparr>customer_name = name, total_price = price,
      status = (case st of None \<Rightarrow> ''open'' | Some s \<Rightarrow> s)\<rparr>"

subsection \<open>The strategy interfaces and the provided strategies\<close>

text \<open>
  An order is passed by reference, so a strategy may change it: a call of
  \<^verbatim>\<open>process\<close> gives its result, the order as the call leaves it, and the records it
  logged; a call of \<^verbatim>\<open>send\<close> gives the order as it leaves it and its records.
  The calls are calls that return: a strategy that raises is not among these.
\<close>

type_synonym IPaymentProcessor = "Order \<Rightarrow> bool \<times> Order \<times> log_record list"

type_synonym INotificationService = "Order \<Rightarrow> Order \<times> log_record list"

definition CreditCardProcessor :: IPaymentProcessor where
  "CreditCardProcessor order =
     (True, order, [Log_record INFO [Lit ''Payment: Memproses Kartu Kredit.'']])"

definition QrisProcessor :: IPaymentProcessor where
  "QrisProcessor order =
     (True, order, [Log_record INFO [Lit ''Payment: Memproses QRIS.'']])"

definition EmailNotifier :: INotificationService where
  "EmailNotifier order =
     (order, [Log_record INFO [Lit ''Notif: Mengirim email konfirmasi ke '',
                               Fmt_str (customer_name order), Lit ''.'']])"

definition processor_read_only :: "IPaymentProcessor \<Rightarrow> Order \<Rightarrow> bool" where
  "processor_read_only p order = (fst (snd (p order)) = order)"

text \<open>
  A strategy may write to the order and still leave its status alone; these say so of
  one call. The notifier of a run is called on the order as the processor left it, with
  the status \<^verbatim>\<open>"paid"\<close> written.
\<close>

definition processor_keeps_status :: "IPaymentProcessor \<Rightarrow> Order \<Rightarrow> bool" where
  "processor_keeps_status p order = (status (fst (snd (p order))) = status order)"

definition notifier_keeps_status :: "INotificationService \<Rightarrow> Order \<Rightarrow> bool" where
  "notifier_keeps_status n order = (status (fst (n order)) = status order)"

text \<open>
  Two implementations that the interfaces admit and the script does not contain: a
  processor that declines and marks the order, and a notifier that reopens it.
\<close>

definition RejectingProcessor :: IPaymentProcessor where
  "RejectingProcessor order = (False, order\<lparr>status := ''rejected''\<rparr>, [])"

definition ReopeningNotifier :: INotificationService where
  "ReopeningNotifier order = (order\<lparr>status := ''open''\<rparr>, [])"

subsection \<open>The coordinator\<close>

text \<open>
  What a run of the coordinator does, in order: the records it logs itself or a
  strategy logs, and the two delegations, each with the order it hands over.
\<close>

datatype checkout_event =
  Logged log_record
| Process_call Order
| Send_call Order

record CheckoutService =
  payment_processor :: IPaymentProcessor
  notifier :: INotificationService

definition run_checkout ::
  "CheckoutService \<Rightarrow> Order \<Rightarrow> bool \<times> Order \<times> checkout_event list" where
  "run_checkout self order =
     (let started = [Logged (Log_record INFO
                       [Lit ''Memulai checkout untuk '', Fmt_str (customer_name order),
                        Lit ''. Total: '', Fmt_num (total_price order)]),
                     Process_call order]
      in case payment_processor self order of
           (payment_success, order1, out1) \<Rightarrow>
             if payment_success then
               (let order2 = order1\<lparr>status := ''paid''\<rparr>
                in case notifier self order2 of
                     (order3, out2) \<Rightarrow>
                       (True, order3,
                        started @ map Logged out1 @ [Send_call order2] @ map Logged out2 @
                        [Logged (Log_record INFO
                           [Lit ''Checkout Sukses. Status pesanan: PAID''])]))
             else
               (False, order1,
                started @ map Logged out1 @
                [Logged (Log_record ERROR [Lit ''Pembayaran gagal. Transaksi di batalkan''])]))"

text \<open>The orders handed to \<^verbatim>\<open>send\<close> during a run, one per invocation.\<close>

fun sends :: "checkout_event list \<Rightarrow> Order list" where
  "sends [] = []"
| "sends (Send_call order # es) = order # sends es"
| "sends (e # es) = sends es"

text \<open>The class the script calls bad code before the refactoring, which nothing instantiates.\<close>

definition process_checkout :: "Order \<Rightarrow> string \<Rightarrow> bool \<times> Order \<times> log_record list" where
  "process_checkout order payment_method =
     (let started = Log_record INFO
            [Lit ''Memulai checkout untuk '', Fmt_str (customer_name order), Lit ''...''];
          notify = Log_record INFO
            [Lit ''Mengirim notifikasi ke '', Fmt_str (customer_name order), Lit ''...'']
      in if payment_method = ''credit_card'' then
           (True, order\<lparr>status := ''paid''\<rparr>,
            [started, Log_record INFO [Lit ''Processing Credit Card...''], notify])
         else if payment_method = ''bank_transfer'' then
           (True, order\<lparr>status := ''paid''\<rparr>,
            [started, Log_record INFO [Lit ''Processing Bank Transfer...''], notify])
         else (False, order, [started, Log_record INFO [Lit ''Metode tidak valid.'']]))"

text \<open>The objects the main program sets up.\<close>

definition andi_order :: Order where
  "andi_order = Order_init ''Andi'' 500000 None"

definition budi_order :: Order where
  "budi_order = Order_init ''Budi'' 100000 None"

definition checkout_cc :: CheckoutService where
  "checkout_cc = \<lparr>payment_processor = CreditCardProcessor, notifier = EmailNotifier\<rparr>"

definition checkout_qris :: CheckoutService where
  "checkout_qris = \<lparr>payment_processor = QrisProcessor, notifier = EmailNotifier\<rparr>"

text \<open>
  The strategies of a run leave the status to the coordinator: the processor where it
  declines, the notifier where the processor accepts and the notifier is called.
\<close>

definition strategies_keep_status :: "CheckoutService \<Rightarrow> Order \<Rightarrow> bool" where
  "strategies_keep_status self order =
     (case payment_processor self order of
        (payment_success, order1, out1) \<Rightarrow>
          if payment_success
          then notifier_keeps_status (notifier self) (order1\<lparr>status := ''paid''\<rparr>)
          else status order1 = status order)"

text \<open>
  The orders the script can reach: one constructed with the default status, and what a
  run of the coordinator with such strategies, or the checkout of the class before the
  refactoring, leaves of a reachable one.
\<close>

inductive reachable :: "Order \<Rightarrow> bool" where
  fresh: "reachable (Order_init name price None)"
| checkout:
    "reachable order \<Longrightarrow> strategies_keep_status self order \<Longrightarrow>
     reachable (fst (snd (run_checkout self order)))"
| legacy:
    "reachable order \<Longrightarrow> reachable (fst (snd (process_checkout order payment_method)))"


section \<open>The registration script (latihan_mandiri.py)\<close>

subsection \<open>The rule interface and the provided rules\<close>

text \<open>
  The registration data is a \<^verbatim>\<open>dict\<close>, passed by reference. A call of a rule's
  \<^verbatim>\<open>validate\<close> gives its result (a raised exception on the left), the dictionary as
  the call leaves it, and the records it logged.
\<close>

type_synonym data = "string \<rightharpoonup> pyval"

type_synonym IValidationRule = "data \<Rightarrow> (error + bool) \<times> data \<times> log_record list"

definition SksLimitRule_validate :: "int \<Rightarrow> IValidationRule" where
  "SksLimitRule_validate max_sks data =
     (let total_sks = dict_get data ''total_sks'' (PInt 0)
      in case py_gt total_sks max_sks of
           Inl e \<Rightarrow> (Inl e, data, [])
         | Inr exceeds \<Rightarrow>
             if exceeds then
               (Inr False, data,
                [Log_record WARNING
                   [Lit ''Validasi Gagal: Total SKS '', Fmt_val total_sks,
                    Lit '' melebihi batas '', Fmt_int max_sks, Lit ''.'']])
             else (Inr True, data, [Log_record INFO [Lit ''Validasi SKS berhasil.'']]))"

definition PrerequisiteRule_validate :: IValidationRule where
  "PrerequisiteRule_validate data =
     (let prasyarat_ok = dict_get data ''prasyarat_ok'' (PBool False)
      in if \<not> truthy prasyarat_ok then
           (Inr False, data,
            [Log_record WARNING
               [Lit ''Validasi Gagal: Prasyarat mata kuliah belum terpenuhi.'']])
         else (Inr True, data, [Log_record INFO [Lit ''Validasi prasyarat berhasil.'']]))"

definition JadwalBentrokRule_validate :: IValidationRule where
  "JadwalBentrokRule_validate data =
     (let bentrok = dict_get data ''jadwal_bentrok'' (PBool False)
      in if truthy bentrok then
           (Inr False, data,
            [Log_record WARNING [Lit ''Validasi Gagal: Terdapat jadwal bentrok.'']])
         else (Inr True, data, [Log_record INFO [Lit ''Validasi jadwal berhasil.'']]))"

text \<open>
  A rule object is an instance of one of the three classes of the script
  (\<^verbatim>\<open>SksLimitRule\<close> with its field \<^verbatim>\<open>max_sks\<close>), or of any other implementation of
  the interface; \<open>rule_validate\<close> is the method call \<^verbatim>\<open>rule.validate(data)\<close>.
\<close>

datatype rule =
  SksLimitRule int
| PrerequisiteRule
| JadwalBentrokRule
| Other_rule IValidationRule

fun rule_validate :: "rule \<Rightarrow> IValidationRule" where
  "rule_validate (SksLimitRule max_sks) = SksLimitRule_validate max_sks"
| "rule_validate PrerequisiteRule = PrerequisiteRule_validate"
| "rule_validate JadwalBentrokRule = JadwalBentrokRule_validate"
| "rule_validate (Other_rule impl) = impl"

fun provided_rule :: "rule \<Rightarrow> bool" where
  "provided_rule (Other_rule impl) = False"
| "provided_rule r = True"

definition rule_read_only :: "rule \<Rightarrow> data \<Rightarrow> bool" where
  "rule_read_only r data = (fst (snd (rule_validate r data)) = data)"

text \<open>What \<^verbatim>\<open>rule.validate(data)\<close> returns, or the exception it raises.\<close>

definition rule_result :: "rule \<Rightarrow> data \<Rightarrow> error + bool" where
  "rule_result r data = fst (rule_validate r data)"

subsection \<open>The coordinator\<close>

text \<open>
  A run records what is logged and each invocation of a rule: the position of the rule
  in the list, and what the invocation returned or raised. The loop hands every rule
  the same dictionary object, so a later rule sees what an earlier one left; an
  exception raised by a rule ends the run.
\<close>

datatype registration_event =
  Reg_logged log_record
| Validate_call nat "error + bool"

record RegistrationService =
  rules :: "rule list"

fun validate_rules ::
  "rule list \<Rightarrow> nat \<Rightarrow> data \<Rightarrow> (error + bool) \<times> data \<times> registration_event list" where
  "validate_rules [] i data =
     (Inr True, data, [Reg_logged (Log_record INFO [Lit ''>>> VALIDASI REGISTRASI BERHASIL''])])"
| "validate_rules (r # rest) i data =
     (case rule_validate r data of
        (Inl e, data1, out) \<Rightarrow> (Inl e, data1, Validate_call i (Inl e) # map Reg_logged out)
      | (Inr ok, data1, out) \<Rightarrow>
          if \<not> ok then
            (Inr False, data1,
             Validate_call i (Inr ok) # map Reg_logged out @
             [Reg_logged (Log_record ERROR [Lit ''>>> VALIDASI REGISTRASI GAGAL''])])
          else
            (case validate_rules rest (Suc i) data1 of
               (res, data2, evs) \<Rightarrow>
                 (res, data2, Validate_call i (Inr ok) # map Reg_logged out @ evs)))"

definition validate :: "RegistrationService \<Rightarrow> data \<Rightarrow> (error + bool) \<times> data \<times> registration_event list" where
  "validate self data =
     (case validate_rules (rules self) 0 data of
        (res, data1, evs) \<Rightarrow>
          (res, data1,
           Reg_logged (Log_record INFO [Lit ''=== MULAI VALIDASI REGISTRASI ==='']) # evs))"

text \<open>The positions of the rules invoked during a run, in the order of the invocations.\<close>

fun calls :: "registration_event list \<Rightarrow> nat list" where
  "calls [] = []"
| "calls (Validate_call i res # es) = i # calls es"
| "calls (e # es) = calls es"

text \<open>What the invocations of a run returned or raised, in the same order.\<close>

fun outcomes :: "registration_event list \<Rightarrow> (error + bool) list" where
  "outcomes [] = []"
| "outcomes (Validate_call i res # es) = res # outcomes es"
| "outcomes (e # es) = outcomes es"

text \<open>The data and the rules of the script's main program.\<close>

definition data_mhs :: data where
  "data_mhs = [''nama'' \<mapsto> PStr ''Andi'', ''total_sks'' \<mapsto> PInt 22,
               ''prasyarat_ok'' \<mapsto> PBool True, ''jadwal_bentrok'' \<mapsto> PBool False]"

definition main_rules :: "rule list" where
  "main_rules = [SksLimitRule 24, PrerequisiteRule, JadwalBentrokRule]"


section \<open>Properties of the registration script\<close>

subsection \<open>The trace of a run\<close>

lemma calls_append: "calls (xs @ ys) = calls xs @ calls ys"
  by (induction xs rule: calls.induct) simp_all

lemma calls_logged: "calls (map Reg_logged out) = []"
  by (induction out) simp_all

lemma outcomes_append: "outcomes (xs @ ys) = outcomes xs @ outcomes ys"
  by (induction xs rule: outcomes.induct) simp_all

lemma outcomes_logged: "outcomes (map Reg_logged out) = []"
  by (induction out) simp_all

subsection \<open>The loop over any rules\<close>

text \<open>
  One step of the loop, by what the first rule returns: anything but true ends the run
  with that outcome, true hands the dictionary on to the rest of the list.
\<close>

lemma validate_rules_stop:
  assumes "rule_validate r data = (res, data1, out)" and "res \<noteq> Inr True"
  shows "fst (validate_rules (r # rest) i data) = res"
    and "calls (snd (snd (validate_rules (r # rest) i data))) = [i]"
    and "outcomes (snd (snd (validate_rules (r # rest) i data))) = [res]"
proof -
  show "fst (validate_rules (r # rest) i data) = res"
  proof (cases res)
    case (Inl e)
    with assms show ?thesis by simp
  next
    case (Inr ok)
    with assms show ?thesis by simp
  qed
  show "calls (snd (snd (validate_rules (r # rest) i data))) = [i]"
  proof (cases res)
    case (Inl e)
    with assms show ?thesis by (simp add: calls_logged)
  next
    case (Inr ok)
    with assms show ?thesis by (simp add: calls_append calls_logged)
  qed
  show "outcomes (snd (snd (validate_rules (r # rest) i data))) = [res]"
  proof (cases res)
    case (Inl e)
    with assms show ?thesis by (simp add: outcomes_logged)
  next
    case (Inr ok)
    with assms show ?thesis by (simp add: outcomes_append outcomes_logged)
  qed
qed

lemma validate_rules_go:
  assumes "rule_validate r data = (Inr True, data1, out)"
  shows "fst (validate_rules (r # rest) i data) = fst (validate_rules rest (Suc i) data1)"
    and "calls (snd (snd (validate_rules (r # rest) i data))) =
           i # calls (snd (snd (validate_rules rest (Suc i) data1)))"
    and "outcomes (snd (snd (validate_rules (r # rest) i data))) =
           Inr True # outcomes (snd (snd (validate_rules rest (Suc i) data1)))"
  using assms
  by (simp_all add: calls_append calls_logged outcomes_append outcomes_logged split: prod.split)

lemma validate_rules_general:
  "calls (snd (snd (validate_rules rs i data))) =
     [i ..< i + length (outcomes (snd (snd (validate_rules rs i data))))]
 \<and> length (outcomes (snd (snd (validate_rules rs i data)))) \<le> length rs
 \<and> (\<forall>res\<in>set (butlast (outcomes (snd (snd (validate_rules rs i data))))). res = Inr True)
 \<and> fst (validate_rules rs i data) =
       (if outcomes (snd (snd (validate_rules rs i data))) = [] then Inr True
        else last (outcomes (snd (snd (validate_rules rs i data)))))
 \<and> (length (outcomes (snd (snd (validate_rules rs i data)))) < length rs \<longrightarrow>
       fst (validate_rules rs i data) \<noteq> Inr True)"
proof (induction rs arbitrary: i data)
  case Nil
  show ?case by simp
next
  case (Cons r rs)
  obtain res data1 out where rv: "rule_validate r data = (res, data1, out)"
    by (cases "rule_validate r data") auto
  show ?case
  proof (cases "res = Inr True")
    case False
    from validate_rules_stop [OF rv False, of rs i] False show ?thesis
      by simp
  next
    case True
    let ?rest = "validate_rules rs (Suc i) data1"
    let ?n = "length (outcomes (snd (snd ?rest)))"
    from True rv have rv': "rule_validate r data = (Inr True, data1, out)" by simp
    note go = validate_rules_go [OF rv', of rs i]
    note ih = Cons.IH [of "Suc i" data1]
    have "i < i + Suc ?n" by simp
    then have "[i ..< i + Suc ?n] = i # [Suc i ..< i + Suc ?n]"
      by (rule upt_conv_Cons)
    moreover have "i + Suc ?n = Suc i + ?n" by simp
    ultimately have step: "[i ..< i + Suc ?n] = i # [Suc i ..< Suc i + ?n]"
      by (simp only:)
    from ih have c: "calls (snd (snd ?rest)) = [Suc i ..< Suc i + ?n]" by blast
    from go(3) have len: "length (outcomes (snd (snd (validate_rules (r # rs) i data)))) = Suc ?n"
      by simp
    from go(2) c have "calls (snd (snd (validate_rules (r # rs) i data))) = i # [Suc i ..< Suc i + ?n]"
      by (simp only:)
    also from step have "\<dots> = [i ..< i + Suc ?n]"
      by (simp only:)
    finally have 1: "calls (snd (snd (validate_rules (r # rs) i data))) =
        [i ..< i + length (outcomes (snd (snd (validate_rules (r # rs) i data))))]"
      unfolding len .
    from ih go(3) have 2: "length (outcomes (snd (snd (validate_rules (r # rs) i data)))) \<le> length (r # rs)"
      by simp
    from ih go(3) have 3: "\<forall>res\<in>set (butlast (outcomes (snd (snd (validate_rules (r # rs) i data))))). res = Inr True"
      by auto
    from ih go(1,3) have 4: "fst (validate_rules (r # rs) i data) =
       (if outcomes (snd (snd (validate_rules (r # rs) i data))) = [] then Inr True
        else last (outcomes (snd (snd (validate_rules (r # rs) i data)))))"
      by auto
    from ih go(1,3) have 5: "length (outcomes (snd (snd (validate_rules (r # rs) i data)))) < length (r # rs) \<longrightarrow>
       fst (validate_rules (r # rs) i data) \<noteq> Inr True"
      by auto
    from 1 2 3 4 5 show ?thesis by blast
  qed
qed

subsection \<open>The loop over rules that leave the data alone\<close>

lemma validate_rules_data:
  "\<forall>r\<in>set rs. rule_read_only r data \<Longrightarrow> fst (snd (validate_rules rs i data)) = data"
proof (induction rs arbitrary: i)
  case Nil
  show ?case by simp
next
  case (Cons r rs)
  from Cons.prems have ro: "fst (snd (rule_validate r data)) = data"
    by (simp add: rule_read_only_def)
  from Cons.prems have rest: "\<forall>r\<in>set rs. rule_read_only r data" by simp
  obtain res d1 out where rv: "rule_validate r data = (res, d1, out)"
    by (cases "rule_validate r data") auto
  with ro have d1: "d1 = data" by simp
  obtain res2 d2 evs where vr: "validate_rules rs (Suc i) data = (res2, d2, evs)"
    by (cases "validate_rules rs (Suc i) data") auto
  from Cons.IH[OF rest, of "Suc i"] vr have "d2 = data" by simp
  with rv d1 vr show ?case by (cases res) simp_all
qed

lemma validate_rules_result:
  "\<forall>r\<in>set rs. rule_read_only r data \<Longrightarrow>
   fst (validate_rules rs i data) =
     (case dropWhile (\<lambda>r. rule_result r data = Inr True) rs of
        [] \<Rightarrow> Inr True | r # _ \<Rightarrow> rule_result r data)"
proof (induction rs arbitrary: i)
  case Nil
  show ?case by simp
next
  case (Cons r rs)
  from Cons.prems have ro: "fst (snd (rule_validate r data)) = data"
    by (simp add: rule_read_only_def)
  from Cons.prems have rest: "\<forall>r\<in>set rs. rule_read_only r data" by simp
  obtain res d1 out where rv: "rule_validate r data = (res, d1, out)"
    by (cases "rule_validate r data") auto
  with ro have d1: "d1 = data" by simp
  obtain res2 d2 evs where vr: "validate_rules rs (Suc i) data = (res2, d2, evs)"
    by (cases "validate_rules rs (Suc i) data") auto
  from Cons.IH[OF rest, of "Suc i"] vr
  have ih: "res2 = (case dropWhile (\<lambda>r. rule_result r data = Inr True) rs of
        [] \<Rightarrow> Inr True | r # _ \<Rightarrow> rule_result r data)" by simp
  from rv have rr: "rule_result r data = res" by (simp add: rule_result_def)
  show ?case
  proof (cases res)
    case (Inl e)
    with rv d1 rr show ?thesis by simp
  next
    case (Inr ok)
    with rv d1 rr vr ih show ?thesis by (cases ok) simp_all
  qed
qed

lemma validate_rules_calls:
  "\<forall>r\<in>set rs. rule_read_only r data \<Longrightarrow>
   calls (snd (snd (validate_rules rs i data))) =
     [i ..< i + min (length rs) (Suc (length (takeWhile (\<lambda>r. rule_result r data = Inr True) rs)))]"
proof (induction rs arbitrary: i)
  case Nil
  show ?case by simp
next
  case (Cons r rs)
  from Cons.prems have ro: "fst (snd (rule_validate r data)) = data"
    by (simp add: rule_read_only_def)
  from Cons.prems have rest: "\<forall>r\<in>set rs. rule_read_only r data" by simp
  obtain res d1 out where rv: "rule_validate r data = (res, d1, out)"
    by (cases "rule_validate r data") auto
  with ro have d1: "d1 = data" by simp
  obtain res2 d2 evs where vr: "validate_rules rs (Suc i) data = (res2, d2, evs)"
    by (cases "validate_rules rs (Suc i) data") auto
  from Cons.IH[OF rest, of "Suc i"] vr
  have ih: "calls evs = [Suc i ..< Suc i + min (length rs) (Suc (length (takeWhile (\<lambda>r. rule_result r data = Inr True) rs)))]" by simp
  from rv have rr: "rule_result r data = res" by (simp add: rule_result_def)
  show ?case
  proof (cases res)
    case (Inl e)
    with rv d1 rr show ?thesis by (simp add: calls_logged)
  next
    case (Inr ok)
    show ?thesis
    proof (cases ok)
      case False
      with Inr rv d1 rr show ?thesis by (simp add: calls_append calls_logged)
    next
      case True
      let ?m = "min (length rs) (Suc (length (takeWhile (\<lambda>r. rule_result r data = Inr True) rs)))"
      have "i < i + Suc ?m" by simp
      then have "[i ..< i + Suc ?m] = i # [Suc i ..< i + Suc ?m]"
        by (rule upt_conv_Cons)
      moreover have "i + Suc ?m = Suc i + ?m" by simp
      ultimately have step: "[i ..< i + Suc ?m] = i # [Suc i ..< Suc i + ?m]"
        by (simp only:)
      from True Inr rv d1 vr
      have "calls (snd (snd (validate_rules (r # rs) i data))) = i # calls evs"
        by (simp add: calls_append calls_logged)
      also from ih step have "\<dots> = [i ..< i + Suc ?m]" by (simp only:)
      finally show ?thesis using True Inr rr by simp
    qed
  qed
qed


subsection \<open>The provided rules\<close>

lemmas rule_defs =
  rule_result_def rule_read_only_def SksLimitRule_validate_def PrerequisiteRule_validate_def
  JadwalBentrokRule_validate_def py_gt_def dict_get_def Let_def

lemma provided_rule_read_only: "provided_rule r \<Longrightarrow> rule_read_only r data"
  by (cases r) (simp_all add: rule_defs split: option.split)

lemma validate_rules_outcomes:
  "\<forall>r\<in>set rs. rule_read_only r data \<Longrightarrow>
   outcomes (snd (snd (validate_rules rs i data))) =
     map (\<lambda>r. rule_result r data)
       (take (Suc (length (takeWhile (\<lambda>r. rule_result r data = Inr True) rs))) rs)"
proof (induction rs arbitrary: i)
  case Nil
  show ?case by simp
next
  case (Cons r rs)
  from Cons.prems have rest: "\<forall>r\<in>set rs. rule_read_only r data" by simp
  obtain res d1 out where rv: "rule_validate r data = (res, d1, out)"
    by (cases "rule_validate r data") auto
  with Cons.prems have d1: "d1 = data" by (simp add: rule_read_only_def)
  from rv have rr: "rule_result r data = res" by (simp add: rule_result_def)
  show ?case
  proof (cases "res = Inr True")
    case False
    from validate_rules_stop(3) [OF rv False, of rs i] False rr show ?thesis by simp
  next
    case True
    with rv d1 have "rule_validate r data = (Inr True, data, out)" by simp
    from validate_rules_go(3) [OF this, of rs i] Cons.IH [OF rest, of "Suc i"] True rr
    show ?thesis by simp
  qed
qed

lemma validate_via_rules:
  "fst (validate self data) = fst (validate_rules (rules self) 0 data)"
  "fst (snd (validate self data)) = fst (snd (validate_rules (rules self) 0 data))"
  "calls (snd (snd (validate self data))) = calls (snd (snd (validate_rules (rules self) 0 data)))"
  "outcomes (snd (snd (validate self data))) =
     outcomes (snd (snd (validate_rules (rules self) 0 data)))"
  by (simp_all add: validate_def split: prod.split)

text \<open>
  C1. For every list of rules and every data: the service returns true exactly when
  every rule was invoked and its \<^verbatim>\<open>validate(data)\<close> returned true. The rules invoked
  are a prefix of the list, in order and once each, and every invocation but the last
  returned true, so no rule behind the first one that returns false (or raises) is
  invoked; the outcome of the service is that of the last invocation. When no rule
  writes to the data, what an invocation returns is what the rule returns on the data
  as given, and the prefix ends at the first rule that does not return true on it.
\<close>

theorem validate_all_rules_short_circuit:
  "(fst (validate self data) = Inr True \<longleftrightarrow>
      length (outcomes (snd (snd (validate self data)))) = length (rules self) \<and>
      (\<forall>res\<in>set (outcomes (snd (snd (validate self data)))). res = Inr True))
 \<and> calls (snd (snd (validate self data))) =
      [0 ..< length (outcomes (snd (snd (validate self data))))]
 \<and> length (outcomes (snd (snd (validate self data)))) \<le> length (rules self)
 \<and> (\<forall>res\<in>set (butlast (outcomes (snd (snd (validate self data))))). res = Inr True)
 \<and> fst (validate self data) =
      (if outcomes (snd (snd (validate self data))) = [] then Inr True
       else last (outcomes (snd (snd (validate self data)))))
 \<and> ((\<forall>r\<in>set (rules self). rule_read_only r data) \<longrightarrow>
       (fst (validate self data) = Inr True \<longleftrightarrow>
          (\<forall>r\<in>set (rules self). rule_result r data = Inr True))
     \<and> fst (validate self data) =
          (case dropWhile (\<lambda>r. rule_result r data = Inr True) (rules self) of
             [] \<Rightarrow> Inr True | r # _ \<Rightarrow> rule_result r data)
     \<and> calls (snd (snd (validate self data))) =
          [0 ..< min (length (rules self))
                   (Suc (length (takeWhile (\<lambda>r. rule_result r data = Inr True) (rules self))))]
     \<and> outcomes (snd (snd (validate self data))) =
          map (\<lambda>r. rule_result r data)
            (take (Suc (length (takeWhile (\<lambda>r. rule_result r data = Inr True) (rules self))))
               (rules self)))"
proof -
  let ?P = "\<lambda>r. rule_result r data = Inr True"
  let ?res = "fst (validate_rules (rules self) 0 data)"
  let ?out = "outcomes (snd (snd (validate_rules (rules self) 0 data)))"
  let ?cs = "calls (snd (snd (validate_rules (rules self) 0 data)))"
  note g = validate_rules_general [of "rules self" 0 data]
  from g have cs: "?cs = [0 ..< length ?out]" by simp
  from g have le: "length ?out \<le> length (rules self)" by blast
  from g have bl: "\<forall>res\<in>set (butlast ?out). res = Inr True" by blast
  from g have rs: "?res = (if ?out = [] then Inr True else last ?out)" by blast
  from g have lt: "length ?out < length (rules self) \<longrightarrow> ?res \<noteq> Inr True" by blast
  have iff: "?res = Inr True \<longleftrightarrow>
      length ?out = length (rules self) \<and> (\<forall>res\<in>set ?out. res = Inr True)"
  proof
    assume t: "?res = Inr True"
    with lt le have n: "length ?out = length (rules self)" by auto
    have "\<forall>res\<in>set ?out. res = Inr True"
    proof (cases "?out = []")
      case True
      then show ?thesis by simp
    next
      case False
      with rs t have "last ?out = Inr True" by simp
      moreover from False have "?out = butlast ?out @ [last ?out]" by simp
      then have "set ?out = set (butlast ?out @ [last ?out])"
        by (rule arg_cong)
      then have "set ?out = insert (last ?out) (set (butlast ?out))"
        by simp
      ultimately show ?thesis using bl by simp
    qed
    with n show "length ?out = length (rules self) \<and> (\<forall>res\<in>set ?out. res = Inr True)" ..
  next
    assume a: "length ?out = length (rules self) \<and> (\<forall>res\<in>set ?out. res = Inr True)"
    show "?res = Inr True"
    proof (cases "?out = []")
      case True
      with rs show ?thesis by simp
    next
      case False
      then have "last ?out \<in> set ?out" by simp
      with a rs False show ?thesis by simp
    qed
  qed
  have ro: "(?res = Inr True \<longleftrightarrow> (\<forall>r\<in>set (rules self). ?P r))
      \<and> ?res = (case dropWhile ?P (rules self) of [] \<Rightarrow> Inr True | r # _ \<Rightarrow> rule_result r data)
      \<and> ?cs = [0 ..< min (length (rules self)) (Suc (length (takeWhile ?P (rules self))))]
      \<and> ?out = map (\<lambda>r. rule_result r data)
                 (take (Suc (length (takeWhile ?P (rules self)))) (rules self))"
    if h: "\<forall>r\<in>set (rules self). rule_read_only r data"
  proof -
    from validate_rules_result [OF h, of 0]
    have res: "?res = (case dropWhile ?P (rules self) of [] \<Rightarrow> Inr True | r # _ \<Rightarrow> rule_result r data)" .
    from validate_rules_calls [OF h, of 0]
    have c: "?cs = [0 ..< min (length (rules self)) (Suc (length (takeWhile ?P (rules self))))]"
      by simp
    have i: "?res = Inr True \<longleftrightarrow> (\<forall>r\<in>set (rules self). ?P r)"
    proof (cases "dropWhile ?P (rules self)")
      case Nil
      then have "\<forall>r\<in>set (rules self). ?P r" by simp
      moreover from res have "?res = Inr True" unfolding Nil by simp
      ultimately show ?thesis by blast
    next
      case (Cons r rest)
      then have "\<not> ?P r" using hd_dropWhile[of ?P "rules self"] by auto
      moreover from Cons have "r \<in> set (rules self)"
        using set_dropWhileD[of r ?P "rules self"] by simp
      moreover from res have "?res = rule_result r data" unfolding Cons by simp
      ultimately show ?thesis by auto
    qed
    note o = validate_rules_outcomes [OF h, of 0]
    show ?thesis
      by (rule conjI [OF i conjI [OF res conjI [OF c o]]])
  qed
  have ro': "(\<forall>r\<in>set (rules self). rule_read_only r data) \<longrightarrow>
      (?res = Inr True \<longleftrightarrow> (\<forall>r\<in>set (rules self). ?P r))
      \<and> ?res = (case dropWhile ?P (rules self) of [] \<Rightarrow> Inr True | r # _ \<Rightarrow> rule_result r data)
      \<and> ?cs = [0 ..< min (length (rules self)) (Suc (length (takeWhile ?P (rules self))))]
      \<and> ?out = map (\<lambda>r. rule_result r data)
                 (take (Suc (length (takeWhile ?P (rules self)))) (rules self))"
  proof (rule impI)
    assume "\<forall>r\<in>set (rules self). rule_read_only r data"
    then show "(?res = Inr True \<longleftrightarrow> (\<forall>r\<in>set (rules self). ?P r))
      \<and> ?res = (case dropWhile ?P (rules self) of [] \<Rightarrow> Inr True | r # _ \<Rightarrow> rule_result r data)
      \<and> ?cs = [0 ..< min (length (rules self)) (Suc (length (takeWhile ?P (rules self))))]
      \<and> ?out = map (\<lambda>r. rule_result r data)
                 (take (Suc (length (takeWhile ?P (rules self)))) (rules self))"
      by (rule ro)
  qed
  show ?thesis
    unfolding validate_via_rules
    by (rule conjI [OF iff conjI [OF cs conjI [OF le conjI [OF bl conjI [OF rs ro']]]]])
qed

theorem validate_all_rules_short_circuit_witness:
  "list_all (\<lambda>r. rule_read_only r (data_mhs(''prasyarat_ok'' \<mapsto> PBool False))) main_rules
   \<and> fst (validate \<lparr>rules = main_rules\<rparr> (data_mhs(''prasyarat_ok'' \<mapsto> PBool False))) = Inr False
   \<and> calls (snd (snd (validate \<lparr>rules = main_rules\<rparr> (data_mhs(''prasyarat_ok'' \<mapsto> PBool False)))))
       = [0, 1]
   \<and> outcomes (snd (snd (validate \<lparr>rules = main_rules\<rparr> (data_mhs(''prasyarat_ok'' \<mapsto> PBool False)))))
       = [Inr True, Inr False]"
proof -
  let ?d = "data_mhs(''prasyarat_ok'' \<mapsto> PBool False)"
  have h: "\<forall>r\<in>set (rules \<lparr>rules = main_rules\<rparr>). rule_read_only r ?d"
    by (simp add: main_rules_def provided_rule_read_only)
  have tw: "takeWhile (\<lambda>r. rule_result r ?d = Inr True) main_rules = [SksLimitRule 24]"
    by (simp add: main_rules_def data_mhs_def rule_defs)
  have dw: "dropWhile (\<lambda>r. rule_result r ?d = Inr True) main_rules = [PrerequisiteRule, JadwalBentrokRule]"
    by (simp add: main_rules_def data_mhs_def rule_defs)
  have r: "rule_result PrerequisiteRule ?d = Inr False"
    by (simp add: rule_defs)
  have r0: "rule_result (SksLimitRule 24) ?d = Inr True"
    by (simp add: data_mhs_def rule_defs)
  have n: "[0 ..< min (length main_rules) (Suc (Suc 0))] = [0, 1]"
    by (simp add: main_rules_def upt_rec)
  have ln: "length [SksLimitRule 24] = Suc 0"
    by simp
  have tk: "take (Suc (Suc 0)) main_rules = [SksLimitRule 24, PrerequisiteRule]"
    by (simp add: main_rules_def)
  from h have la: "list_all (\<lambda>r. rule_read_only r ?d) main_rules"
    by (simp add: list_all_iff)
  note ro = validate_all_rules_short_circuit [of "\<lparr>rules = main_rules\<rparr>" ?d,
      THEN conjunct2, THEN conjunct2, THEN conjunct2, THEN conjunct2, THEN conjunct2,
      THEN mp, OF h, THEN conjunct2]
  then have "fst (validate \<lparr>rules = main_rules\<rparr> ?d) =
          (case dropWhile (\<lambda>r. rule_result r ?d = Inr True) main_rules of
             [] \<Rightarrow> Inr True | r # _ \<Rightarrow> rule_result r ?d)
      \<and> calls (snd (snd (validate \<lparr>rules = main_rules\<rparr> ?d))) =
          [0 ..< min (length main_rules)
                   (Suc (length (takeWhile (\<lambda>r. rule_result r ?d = Inr True) main_rules)))]
      \<and> outcomes (snd (snd (validate \<lparr>rules = main_rules\<rparr> ?d))) =
          map (\<lambda>r. rule_result r ?d)
            (take (Suc (length (takeWhile (\<lambda>r. rule_result r ?d = Inr True) main_rules)))
               main_rules)"
    by (simp only: RegistrationService.select_convs)
  then have "fst (validate \<lparr>rules = main_rules\<rparr> ?d) = rule_result PrerequisiteRule ?d
      \<and> calls (snd (snd (validate \<lparr>rules = main_rules\<rparr> ?d))) = [0, 1]
      \<and> outcomes (snd (snd (validate \<lparr>rules = main_rules\<rparr> ?d))) =
          [rule_result (SksLimitRule 24) ?d, rule_result PrerequisiteRule ?d]"
    unfolding tw dw ln by (simp only: list.case list.map n tk)
  with r r0 la show ?thesis
    by (simp only: simp_thms)
qed



lemma SksLimitRule_validate_type_error:
  "data ''total_sks'' = Some v \<Longrightarrow> num_of v = None \<Longrightarrow>
   rule_result (SksLimitRule max_sks) data = Inl TypeError"
  by (simp add: rule_defs)

text \<open>
  C4. When the data holds a value under \<^verbatim>\<open>"prasyarat_ok"\<close>, the prerequisite rule returns
  the truth value of that value; when it holds one under \<^verbatim>\<open>"jadwal_bentrok"\<close>, the
  schedule rule returns the negation of its truth value.
\<close>

theorem flag_rules_pass_through:
  "(data ''prasyarat_ok'' = Some v \<longrightarrow> rule_result PrerequisiteRule data = Inr (truthy v))
 \<and> (data ''jadwal_bentrok'' = Some w \<longrightarrow> rule_result JadwalBentrokRule data = Inr (\<not> truthy w))"
  by (simp add: rule_defs)

theorem flag_rules_pass_through_witness:
  "data_mhs ''prasyarat_ok'' = Some (PBool True)
 \<and> data_mhs ''jadwal_bentrok'' = Some (PBool False)
 \<and> rule_result PrerequisiteRule data_mhs = Inr True
 \<and> rule_result JadwalBentrokRule data_mhs = Inr True"
proof -
  have p: "data_mhs ''prasyarat_ok'' = Some (PBool True)"
    and j: "data_mhs ''jadwal_bentrok'' = Some (PBool False)"
    by (simp_all add: data_mhs_def)
  with flag_rules_pass_through [of data_mhs "PBool True" "PBool False"] show ?thesis
    by simp
qed



text \<open>
  C7. When every rule of the service is one of the three provided rules, a run of the
  service leaves the data as it was, and so does each rule called on the data.
\<close>

theorem registration_data_unchanged:
  assumes "\<forall>r\<in>set (rules self). provided_rule r"
  shows "fst (snd (validate self data)) = data
       \<and> (\<forall>r\<in>set (rules self). fst (snd (rule_validate r data)) = data)"
proof -
  from assms have ro: "\<forall>r\<in>set (rules self). rule_read_only r data"
    by (simp add: provided_rule_read_only)
  obtain res d1 evs where vr: "validate_rules (rules self) 0 data = (res, d1, evs)"
    by (cases "validate_rules (rules self) 0 data") auto
  with validate_rules_data [OF ro, of 0] have "d1 = data" by simp
  with vr have "fst (snd (validate self data)) = data" by (simp add: validate_def)
  with ro show ?thesis by (simp add: rule_read_only_def)
qed

theorem registration_data_unchanged_witness:
  "list_all provided_rule main_rules
 \<and> fst (snd (validate \<lparr>rules = main_rules\<rparr> data_mhs)) = data_mhs
 \<and> list_all (\<lambda>r. fst (snd (rule_validate r data_mhs)) = data_mhs) main_rules"
proof -
  have h: "\<forall>r\<in>set (rules \<lparr>rules = main_rules\<rparr>). provided_rule r"
    by (simp add: main_rules_def)
  from registration_data_unchanged [OF h, of data_mhs] h show ?thesis
    by (simp add: list_all_iff)
qed


section \<open>Properties of the checkout script\<close>

subsection \<open>The two branches of a run\<close>

lemma sends_append: "sends (xs @ ys) = sends xs @ sends ys"
  by (induction xs rule: sends.induct) simp_all

lemma sends_logged: "sends (map Logged out) = []"
  by (induction out) simp_all

lemma run_checkout_success:
  assumes "payment_processor self order = (True, order1, out1)"
    and "notifier self (order1\<lparr>status := ''paid''\<rparr>) = (order3, out2)"
  shows "fst (run_checkout self order) = True"
    and "fst (snd (run_checkout self order)) = order3"
    and "sends (snd (snd (run_checkout self order))) = [order1\<lparr>status := ''paid''\<rparr>]"
  using assms by (simp_all add: run_checkout_def Let_def sends_append sends_logged)

lemma run_checkout_failure:
  assumes "payment_processor self order = (False, order1, out1)"
  shows "fst (run_checkout self order) = False"
    and "fst (snd (run_checkout self order)) = order1"
    and "sends (snd (snd (run_checkout self order))) = []"
  using assms by (simp_all add: run_checkout_def Let_def sends_append sends_logged)

text \<open>
  C2 (amended). For every order and every injected processor and notifier: if
  \<^verbatim>\<open>process\<close> returns true, the run returns true and invokes \<^verbatim>\<open>send\<close> exactly
  once, and the status is \<^verbatim>\<open>"paid"\<close> afterwards when the notifier leaves the status
  alone; if \<^verbatim>\<open>process\<close> returns false, the run returns false and never invokes
  \<^verbatim>\<open>send\<close>, and the status is what it was before the run, so \<^verbatim>\<open>"open"\<close> for
  an open order, when the processor leaves the status alone.
\<close>

theorem run_checkout_outcome:
  "(fst (payment_processor self order) \<longrightarrow>
      fst (run_checkout self order)
    \<and> length (sends (snd (snd (run_checkout self order)))) = 1
    \<and> (notifier_keeps_status (notifier self)
          ((fst (snd (payment_processor self order)))\<lparr>status := ''paid''\<rparr>) \<longrightarrow>
        status (fst (snd (run_checkout self order))) = ''paid''))
 \<and> (\<not> fst (payment_processor self order) \<longrightarrow>
      \<not> fst (run_checkout self order)
    \<and> sends (snd (snd (run_checkout self order))) = []
    \<and> (processor_keeps_status (payment_processor self) order \<longrightarrow>
        status (fst (snd (run_checkout self order))) = status order))"
proof -
  obtain ok order1 out1 where p: "payment_processor self order = (ok, order1, out1)"
    by (cases "payment_processor self order") auto
  obtain order3 out2 where n: "notifier self (order1\<lparr>status := ''paid''\<rparr>) = (order3, out2)"
    by (cases "notifier self (order1\<lparr>status := ''paid''\<rparr>)") auto
  show ?thesis
  proof (cases ok)
    case True
    with p have p': "payment_processor self order = (True, order1, out1)" by simp
    from run_checkout_success [OF p' n] p' n show ?thesis
      by (simp add: notifier_keeps_status_def)
  next
    case False
    with p have p': "payment_processor self order = (False, order1, out1)" by simp
    from run_checkout_failure [OF p'] p' show ?thesis
      by (simp add: processor_keeps_status_def)
  qed
qed

lemmas checkout_defs =
  andi_order_def checkout_cc_def Order_init_def CreditCardProcessor_def QrisProcessor_def
  EmailNotifier_def processor_read_only_def

theorem run_checkout_outcome_witness:
  "status andi_order = ''open''
 \<and> fst (run_checkout checkout_cc andi_order)
 \<and> status (fst (snd (run_checkout checkout_cc andi_order))) = ''paid''
 \<and> length (sends (snd (snd (run_checkout checkout_cc andi_order)))) = 1
 \<and> \<not> fst (run_checkout (checkout_cc\<lparr>payment_processor := \<lambda>order. (False, order, [])\<rparr>) andi_order)
 \<and> status (fst (snd (run_checkout
        (checkout_cc\<lparr>payment_processor := \<lambda>order. (False, order, [])\<rparr>) andi_order))) = ''open''
 \<and> sends (snd (snd (run_checkout
        (checkout_cc\<lparr>payment_processor := \<lambda>order. (False, order, [])\<rparr>) andi_order))) = []"
proof -
  let ?declining = "checkout_cc\<lparr>payment_processor := \<lambda>order. (False, order, [])\<rparr>"
  have st: "status andi_order = ''open''"
    by (simp add: checkout_defs)
  have ok1: "fst (payment_processor checkout_cc andi_order)"
    and n1: "notifier_keeps_status (notifier checkout_cc)
               ((fst (snd (payment_processor checkout_cc andi_order)))\<lparr>status := ''paid''\<rparr>)"
    by (simp_all add: checkout_defs notifier_keeps_status_def)
  have ok2: "\<not> fst (payment_processor ?declining andi_order)"
    and p2: "processor_keeps_status (payment_processor ?declining) andi_order"
    by (simp_all add: checkout_defs processor_keeps_status_def)
  from run_checkout_outcome [of checkout_cc andi_order] ok1 n1
  have a: "fst (run_checkout checkout_cc andi_order)
     \<and> status (fst (snd (run_checkout checkout_cc andi_order))) = ''paid''
     \<and> length (sends (snd (snd (run_checkout checkout_cc andi_order)))) = 1"
    by blast
  from run_checkout_outcome [of ?declining andi_order] ok2 p2
  have "\<not> fst (run_checkout ?declining andi_order)
     \<and> status (fst (snd (run_checkout ?declining andi_order))) = status andi_order
     \<and> sends (snd (snd (run_checkout ?declining andi_order))) = []"
    by blast
  with st have b: "\<not> fst (run_checkout ?declining andi_order)
     \<and> status (fst (snd (run_checkout ?declining andi_order))) = ''open''
     \<and> sends (snd (snd (run_checkout ?declining andi_order))) = []"
    by simp
  from st a b show ?thesis by (intro conjI) blast+
qed

text \<open>
  The claim as the specification words it, for any injected strategies, fails where a
  strategy writes the status itself: a processor that declines an open order and marks
  it rejected, and a notifier that reopens the order it is handed.
\<close>

theorem run_checkout_outcome_counterexample:
  "status andi_order = ''open''
 \<and> \<not> fst (RejectingProcessor andi_order)
 \<and> status (fst (snd (run_checkout
       \<lparr>payment_processor = RejectingProcessor, notifier = EmailNotifier\<rparr> andi_order))) = ''rejected''
 \<and> fst (CreditCardProcessor andi_order)
 \<and> status (fst (snd (run_checkout
       \<lparr>payment_processor = CreditCardProcessor, notifier = ReopeningNotifier\<rparr> andi_order))) = ''open''"
  by (simp add: run_checkout_def checkout_defs RejectingProcessor_def ReopeningNotifier_def Let_def)

text \<open>
  C5. The credit card processor and the QRIS processor return true on every order;
  with either of them and any notifier, a run returns true and invokes \<^verbatim>\<open>send\<close>
  once, which only the success branch does.
\<close>

theorem provided_processors_always_succeed:
  "fst (CreditCardProcessor order) = True
 \<and> fst (QrisProcessor order) = True
 \<and> fst (run_checkout \<lparr>payment_processor = CreditCardProcessor, notifier = n\<rparr> order) = True
 \<and> fst (run_checkout \<lparr>payment_processor = QrisProcessor, notifier = n\<rparr> order) = True
 \<and> length (sends (snd (snd
      (run_checkout \<lparr>payment_processor = CreditCardProcessor, notifier = n\<rparr> order)))) = 1
 \<and> length (sends (snd (snd
      (run_checkout \<lparr>payment_processor = QrisProcessor, notifier = n\<rparr> order)))) = 1"
proof -
  obtain o3 out2 where n: "n (order\<lparr>status := ''paid''\<rparr>) = (o3, out2)"
    by (cases "n (order\<lparr>status := ''paid''\<rparr>)") auto
  have cc: "payment_processor \<lparr>payment_processor = CreditCardProcessor, notifier = n\<rparr> order
              = (True, order, [Log_record INFO [Lit ''Payment: Memproses Kartu Kredit.'']])"
    and qr: "payment_processor \<lparr>payment_processor = QrisProcessor, notifier = n\<rparr> order
              = (True, order, [Log_record INFO [Lit ''Payment: Memproses QRIS.'']])"
    by (simp_all add: CreditCardProcessor_def QrisProcessor_def)
  from n have n': "\<And>p. notifier \<lparr>payment_processor = p, notifier = n\<rparr> (order\<lparr>status := ''paid''\<rparr>) = (o3, out2)"
    by simp
  from run_checkout_success(1,3) [OF cc n'] run_checkout_success(1,3) [OF qr n']
  show ?thesis by (simp add: CreditCardProcessor_def QrisProcessor_def)
qed

theorem provided_processors_always_succeed_witness:
  "fst (run_checkout checkout_cc andi_order) = True
 \<and> fst (run_checkout checkout_qris budi_order) = True
 \<and> length (sends (snd (snd (run_checkout checkout_cc andi_order)))) = 1
 \<and> length (sends (snd (snd (run_checkout checkout_qris budi_order)))) = 1"
  using provided_processors_always_succeed [of andi_order EmailNotifier]
    provided_processors_always_succeed [of budi_order EmailNotifier]
  by (simp add: checkout_cc_def checkout_qris_def)

text \<open>
  C10. Every order handed to \<^verbatim>\<open>send\<close> during a run has the status \<^verbatim>\<open>"paid"\<close>,
  whatever the strategies are: the status is written before the notifier is called.
\<close>

theorem notifier_sees_paid_order:
  "\<forall>seen\<in>set (sends (snd (snd (run_checkout self order)))). status seen = ''paid''"
proof -
  obtain ok order1 out1 where p: "payment_processor self order = (ok, order1, out1)"
    by (cases "payment_processor self order") auto
  show ?thesis
  proof (cases ok)
    case True
    obtain order3 out2 where n: "notifier self (order1\<lparr>status := ''paid''\<rparr>) = (order3, out2)"
      by (cases "notifier self (order1\<lparr>status := ''paid''\<rparr>)") auto
    from run_checkout_success(3) [of self order order1 out1 order3 out2] p True n
    show ?thesis by simp
  next
    case False
    from run_checkout_failure(3) [of self order order1 out1] p False
    show ?thesis by simp
  qed
qed

theorem notifier_sees_paid_order_witness:
  "sends (snd (snd (run_checkout checkout_cc andi_order))) \<noteq> []
 \<and> status (hd (sends (snd (snd (run_checkout checkout_cc andi_order))))) = ''paid''"
proof -
  have ne: "sends (snd (snd (run_checkout checkout_cc andi_order))) \<noteq> []"
    by (simp add: run_checkout_def checkout_defs Let_def)
  then have "hd (sends (snd (snd (run_checkout checkout_cc andi_order))))
               \<in> set (sends (snd (snd (run_checkout checkout_cc andi_order))))"
    by (rule hd_in_set)
  with notifier_sees_paid_order [of checkout_cc andi_order] ne show ?thesis
    by blast
qed


subsection \<open>The status of an order\<close>

lemma run_checkout_status:
  assumes "strategies_keep_status self order"
  shows "status (fst (snd (run_checkout self order))) =
           (if fst (run_checkout self order) then ''paid'' else status order)"
proof -
  obtain ok order1 out1 where p: "payment_processor self order = (ok, order1, out1)"
    by (cases "payment_processor self order") auto
  obtain order3 out2 where n: "notifier self (order1\<lparr>status := ''paid''\<rparr>) = (order3, out2)"
    by (cases "notifier self (order1\<lparr>status := ''paid''\<rparr>)") auto
  show ?thesis
  proof (cases ok)
    case True
    with p have p': "payment_processor self order = (True, order1, out1)" by simp
    from assms p' n have "status order3 = ''paid''"
      by (simp add: strategies_keep_status_def notifier_keeps_status_def)
    with run_checkout_success(1,2) [OF p' n] show ?thesis by simp
  next
    case False
    with p have p': "payment_processor self order = (False, order1, out1)" by simp
    from assms p' have "status order1 = status order"
      by (simp add: strategies_keep_status_def)
    with run_checkout_failure(1,2) [OF p'] show ?thesis by simp
  qed
qed

lemma process_checkout_status:
  "status (fst (snd (process_checkout order payment_method))) =
     (if fst (process_checkout order payment_method) then ''paid'' else status order)"
  by (simp add: process_checkout_def Let_def)

lemma reachable_status: "reachable order \<Longrightarrow> status order = ''open'' \<or> status order = ''paid''"
proof (induction rule: reachable.induct)
  case (fresh name price)
  show ?case by (simp add: Order_init_def)
next
  case (checkout order self)
  from run_checkout_status [OF checkout.hyps(2)] checkout.IH show ?case
    by (cases "fst (run_checkout self order)") simp_all
next
  case (legacy order payment_method)
  from process_checkout_status [of order payment_method] legacy.IH show ?case
    by (cases "fst (process_checkout order payment_method)") simp_all
qed

lemma provided_strategies_keep_status:
  "strategies_keep_status checkout_cc order"
  "strategies_keep_status checkout_qris order"
  by (simp_all add: strategies_keep_status_def notifier_keeps_status_def checkout_cc_def
        checkout_qris_def CreditCardProcessor_def QrisProcessor_def EmailNotifier_def)

text \<open>
  C6 (amended). An order constructed without a status is open. A run of the
  coordinator, with strategies that leave the status alone, and the checkout of the
  class before the refactoring write one value only, \<^verbatim>\<open>"paid"\<close>, exactly when they
  return true and whatever the status was before; when they return false the status
  is as it was. So nothing sets a status to \<^verbatim>\<open>"open"\<close> or to a third value, and an
  order constructed with the default status is open or paid ever after.
\<close>

theorem order_status_lifecycle:
  "status (Order_init name price None) = ''open''
 \<and> (strategies_keep_status self order \<longrightarrow>
       status (fst (snd (run_checkout self order))) =
         (if fst (run_checkout self order) then ''paid'' else status order))
 \<and> status (fst (snd (process_checkout order payment_method))) =
       (if fst (process_checkout order payment_method) then ''paid'' else status order)
 \<and> (reachable order \<longrightarrow> status order = ''open'' \<or> status order = ''paid'')"
proof -
  have 1: "status (Order_init name price None) = ''open''"
    by (simp add: Order_init_def)
  have 2: "strategies_keep_status self order \<longrightarrow>
       status (fst (snd (run_checkout self order))) =
         (if fst (run_checkout self order) then ''paid'' else status order)"
    by (rule impI) (rule run_checkout_status)
  have 4: "reachable order \<longrightarrow> status order = ''open'' \<or> status order = ''paid''"
    by (rule impI) (rule reachable_status)
  show ?thesis
    by (rule conjI [OF 1 conjI [OF 2 conjI [OF process_checkout_status 4]]])
qed

theorem order_status_lifecycle_witness:
  "status andi_order = ''open''
 \<and> fst (run_checkout checkout_cc andi_order)
 \<and> status (fst (snd (run_checkout checkout_cc andi_order))) = ''paid''
 \<and> reachable (fst (snd (run_checkout checkout_cc andi_order)))
 \<and> status (fst (snd (run_checkout checkout_qris
              (fst (snd (run_checkout checkout_cc andi_order)))))) = ''paid''"
proof -
  let ?paid = "fst (snd (run_checkout checkout_cc andi_order))"
  note k1 = provided_strategies_keep_status(1) [of andi_order]
  note k2 = provided_strategies_keep_status(2) [of ?paid]
  have ok: "fst (run_checkout checkout_cc andi_order)"
    by (simp add: run_checkout_def checkout_defs Let_def)
  have r0: "reachable andi_order"
    unfolding andi_order_def by (rule reachable.fresh)
  from r0 k1 have r1: "reachable ?paid"
    by (rule reachable.checkout)
  note t1 = order_status_lifecycle [of "''Andi''" 500000 checkout_cc andi_order "''credit_card''"]
  note t2 = order_status_lifecycle [of "''Andi''" 500000 checkout_qris ?paid "''credit_card''"]
  from t1 have o: "status andi_order = ''open''"
    unfolding andi_order_def by (rule conjunct1)
  from t1 [THEN conjunct2, THEN conjunct1, THEN mp, OF k1] ok
  have a: "status ?paid = ''paid''"
    by simp
  from t2 [THEN conjunct2, THEN conjunct2, THEN conjunct2, THEN mp, OF r1]
  have "status ?paid = ''open'' \<or> status ?paid = ''paid''" .
  from t2 [THEN conjunct2, THEN conjunct1, THEN mp, OF k2] a
  have b: "status (fst (snd (run_checkout checkout_qris ?paid))) = ''paid''"
    by (cases "fst (run_checkout checkout_qris ?paid)") simp_all
  show ?thesis
    by (rule conjI [OF o conjI [OF ok conjI [OF a conjI [OF r1 b]]]])
qed

text \<open>
  The claim as the specification words it fails on two counts: a run moves an order
  constructed as cancelled to paid, a transition that does not start at
  \<^verbatim>\<open>"open"\<close>, and the checkout of the class before the refactoring moves an open
  order to paid without any run of the coordinator.
\<close>

theorem order_status_lifecycle_counterexample:
  "status (Order_init ''Andi'' 500000 (Some ''cancelled'')) = ''cancelled''
 \<and> fst (run_checkout checkout_cc (Order_init ''Andi'' 500000 (Some ''cancelled'')))
 \<and> status (fst (snd (run_checkout checkout_cc
       (Order_init ''Andi'' 500000 (Some ''cancelled''))))) = ''paid''
 \<and> status andi_order = ''open''
 \<and> fst (process_checkout andi_order ''credit_card'')
 \<and> status (fst (snd (process_checkout andi_order ''credit_card''))) = ''paid''"
  by (simp add: run_checkout_def process_checkout_def checkout_defs Let_def)

text \<open>
  C8. With the credit card or the QRIS processor and the email notifier, a run leaves
  the order as it was but for the status \<^verbatim>\<open>"paid"\<close>: the customer name and the total
  price are unchanged. In the failure branch, which takes a processor that returns
  false without writing to the order, the order is left as it was.
\<close>

theorem run_checkout_writes_status_only:
  "fst (snd (run_checkout \<lparr>payment_processor = CreditCardProcessor, notifier = EmailNotifier\<rparr> order))
     = order\<lparr>status := ''paid''\<rparr>
 \<and> fst (snd (run_checkout \<lparr>payment_processor = QrisProcessor, notifier = EmailNotifier\<rparr> order))
     = order\<lparr>status := ''paid''\<rparr>
 \<and> customer_name (fst (snd (run_checkout
       \<lparr>payment_processor = CreditCardProcessor, notifier = EmailNotifier\<rparr> order)))
     = customer_name order
 \<and> total_price (fst (snd (run_checkout
       \<lparr>payment_processor = CreditCardProcessor, notifier = EmailNotifier\<rparr> order)))
     = total_price order
 \<and> customer_name (fst (snd (run_checkout
       \<lparr>payment_processor = QrisProcessor, notifier = EmailNotifier\<rparr> order)))
     = customer_name order
 \<and> total_price (fst (snd (run_checkout
       \<lparr>payment_processor = QrisProcessor, notifier = EmailNotifier\<rparr> order)))
     = total_price order
 \<and> (processor_read_only p order \<and> \<not> fst (p order) \<longrightarrow>
       fst (snd (run_checkout \<lparr>payment_processor = p, notifier = EmailNotifier\<rparr> order)) = order)"
proof -
  have cc: "fst (snd (run_checkout \<lparr>payment_processor = CreditCardProcessor, notifier = EmailNotifier\<rparr> order))
     = order\<lparr>status := ''paid''\<rparr>"
    by (simp add: run_checkout_def CreditCardProcessor_def EmailNotifier_def Let_def)
  have qr: "fst (snd (run_checkout \<lparr>payment_processor = QrisProcessor, notifier = EmailNotifier\<rparr> order))
     = order\<lparr>status := ''paid''\<rparr>"
    by (simp add: run_checkout_def QrisProcessor_def EmailNotifier_def Let_def)
  have fl: "fst (snd (run_checkout \<lparr>payment_processor = p, notifier = EmailNotifier\<rparr> order)) = order"
    if ro: "processor_read_only p order" and no: "\<not> fst (p order)"
  proof -
    obtain ok order1 out1 where p: "p order = (ok, order1, out1)"
      by (cases "p order") auto
    with ro no have "ok = False" "order1 = order"
      by (simp_all add: processor_read_only_def)
    with p run_checkout_failure(2) [of "\<lparr>payment_processor = p, notifier = EmailNotifier\<rparr>" order order out1]
    show ?thesis by simp
  qed
  from cc qr fl show ?thesis by simp
qed

theorem run_checkout_writes_status_only_witness:
  "fst (snd (run_checkout checkout_cc andi_order)) =
     \<lparr>customer_name = ''Andi'', total_price = 500000, status = ''paid''\<rparr>
 \<and> fst (snd (run_checkout \<lparr>payment_processor = \<lambda>order. (False, order, []),
                            notifier = EmailNotifier\<rparr> andi_order)) = andi_order"
proof -
  have ro: "processor_read_only (\<lambda>order. (False, order, [])) andi_order"
    and no: "\<not> fst ((\<lambda>order. (False, order, [])) andi_order)"
    by (simp_all add: processor_read_only_def)
  from run_checkout_writes_status_only [of andi_order "\<lambda>order. (False, order, [])"] ro no
  show ?thesis by (simp add: checkout_cc_def andi_order_def Order_init_def)
qed

end
